theory Spec2Isabelle
  imports Complex_Main "HOL-Library.Word" "HOL-Library.Product_Lexorder"
begin

section \<open>Data shared by client, server and analyzer\<close>

text \<open>
  Payloads are Python \<open>bytes\<close>: lists of 8-bit words. Python floats are modelled as
  reals, so \<open>/\<close>, \<open>-\<close> and the comparisons are exact; IEEE rounding is not modelled.
\<close>

type_synonym byte = "8 word"
type_synonym bytes = "byte list"

text \<open>
  The values that occur in the JSON dictionaries the server returns, with Python's
  truth value of each (\<open>bool(v)\<close>). A dictionary is an association list, in insertion
  order; \<open>dict_get\<close> is \<open>d.get(key, default)\<close>.
\<close>

datatype json = JNull | JBool bool | JInt int | JStr string

fun py_bool :: "json \<Rightarrow> bool" where
  "py_bool JNull = False"
| "py_bool (JBool b) = b"
| "py_bool (JInt i) = (i \<noteq> 0)"
| "py_bool (JStr s) = (s \<noteq> [])"

type_synonym py_dict = "(string \<times> json) list"

definition dict_get :: "py_dict \<Rightarrow> string \<Rightarrow> json \<Rightarrow> json" where
  "dict_get d key dflt = (case map_of d key of None \<Rightarrow> dflt | Some v \<Rightarrow> v)"

text \<open>
  \<open>zlib\<close> and \<open>hashlib\<close> are libraries, not code of this repository. They enter every
  function that calls them as one argument, a record of their operations:
  \<^item> \<open>sha256_hexdigest\<close>: the hex digest of a whole message. A \<open>hashlib.sha256()\<close> object
    is modelled by the bytes fed to it so far, which is what its documentation says
    \<open>update\<close> means (\<open>m.update(a); m.update(b)\<close> is \<open>m.update(a + b)\<close>);
  \<open>hexdigest()\<close> is \<open>sha256_hexdigest\<close> of those bytes.
  \<^item> \<open>zlib_init\<close>, \<open>zlib_compress\<close>, \<open>zlib_flush\<close>: the state of a fresh
    \<open>zlib.compressobj(6, DEFLATED, 16 + MAX_WBITS)\<close>, its \<open>compress(chunk)\<close> (new state
    and the bytes emitted) and its \<open>flush()\<close>.
  \<^item> \<open>zlib_decompress\<close>: \<open>zlib.decompress(body, wbits=16 + MAX_WBITS)\<close>; \<open>Inl\<close> carries
    the text of the exception it raised.
  \<^item> \<open>float_str\<close>: Python's \<open>str\<close> of a float.
\<close>

record 'c libs =
  sha256_hexdigest :: "bytes \<Rightarrow> string"
  zlib_init :: "'c"
  zlib_compress :: "'c \<Rightarrow> bytes \<Rightarrow> 'c \<times> bytes"
  zlib_flush :: "'c \<Rightarrow> bytes"
  zlib_decompress :: "bytes \<Rightarrow> string + bytes"
  float_str :: "real \<Rightarrow> string"

section \<open>server/server.py\<close>

text \<open>
  The module constants under the comment ``Bug configuration for Statistical Debugging''.
  \<open>upload_file\<close> reads them as globals; here they are an argument, and \<open>bug_config\<close>
  holds the values the module assigns. \<open>BUG_PROBABILITY\<close> is the double nearest to 0.3.
\<close>

record config =
  BUG_ENABLED :: bool
  BUG_PROBABILITY :: real
  LARGE_FILE_THRESHOLD :: nat
  CORRUPT_TAIL_BYTES :: nat

definition bug_config :: config where
  "bug_config =
     \<lparr>BUG_ENABLED = True,
      BUG_PROBABILITY = 5404319552844595 / 18014398509481984,
      LARGE_FILE_THRESHOLD = 10 * 1024 * 1024,
      CORRUPT_TAIL_BYTES = 1024\<rparr>"

text \<open>
  \<open>corrupted[-n:] = b"\x00" * n\<close> on a bytearray: the slice starts at
  \<open>max 0 (len - n)\<close>, and at 0 when \<open>n = 0\<close> (\<open>-0\<close> is \<open>0\<close>); everything from there on is
  replaced by \<open>n\<close> zero bytes.
\<close>

definition zero_tail :: "nat \<Rightarrow> bytes \<Rightarrow> bytes" where
  "zero_tail n corrupted =
     take (if n = 0 then 0 else length corrupted - n) corrupted @ replicate n 0"

text \<open>
  \<open>not s\<close> for \<open>s = params.get(key)\<close>: true when the key is absent or its value is the
  empty string.
\<close>

fun py_not :: "string option \<Rightarrow> bool" where
  "py_not None = True"
| "py_not (Some s) = (s = [])"

text \<open>
  \<open>upload_file\<close>. The arguments are what the handler reads: the query parameters, the
  request body and, when it asks for one, the value of \<open>random.random()\<close>. The result is
  the dictionary it returns and the task it hands to the thread pool
  (\<open>save_bytes_task(original_data, OUTPUT_DIR / filename)\<close>, as the pair of
  \<open>filename\<close> and the bytes), if any. Spans, events
  and metrics are left out; they do not feed back into the handler.
\<close>

definition upload_file ::
  "'c libs \<Rightarrow> config \<Rightarrow> (string \<rightharpoonup> string) \<Rightarrow> bytes \<Rightarrow> real \<Rightarrow>
     py_dict \<times> (string option \<times> bytes) option" where
  "upload_file L cfg params compressed_body draw =
     (let filename = params ''filename'';
          checksum = params ''checksum'';
          compression_ratio_str = params ''compression_ratio''
      in if py_not filename \<or> py_not checksum then
           ([(''status'', JStr ''error''),
             (''reason'', JStr ''missing filename or checksum'')], None)
         else
           (case zlib_decompress L compressed_body of
              Inl e \<Rightarrow>
                ([(''status'', JStr ''error''),
                  (''reason'', JStr (''decompression_failed: '' @ e))], None)
            | Inr original_data \<Rightarrow>
                (let original_size = length original_data;
                     is_large_file = (original_size > LARGE_FILE_THRESHOLD cfg);
                     bug_triggered =
                       (BUG_ENABLED cfg \<and> is_large_file \<and> draw < BUG_PROBABILITY cfg);
                     original_data =
                       (if bug_triggered \<and> original_size \<ge> CORRUPT_TAIL_BYTES cfg
                        then zero_tail (CORRUPT_TAIL_BYTES cfg) original_data
                        else original_data);
                     server_checksum = sha256_hexdigest L original_data;
                     checksum_ok = (Some server_checksum = checksum)
                 in ([(''status'', JStr ''ok''),
                      (''filename'', (case filename of None \<Rightarrow> JNull | Some s \<Rightarrow> JStr s)),
                      (''checksum_ok'', JBool checksum_ok),
                      (''server_checksum'', JStr server_checksum),
                      (''compression_ratio'',
                         (case compression_ratio_str of None \<Rightarrow> JNull | Some s \<Rightarrow> JStr s)),
                      (''original_size'', JInt (int original_size)),
                      (''compressed_size'', JInt (int (length compressed_body))),
                      (''is_large_file'', JBool is_large_file),
                      (''bug_triggered'', JBool bug_triggered)],
                     Some (filename, original_data)))))"

section \<open>client/client.py\<close>

text \<open>The exceptions that the modelled functions let escape.\<close>

datatype error = ValueError | HTTPStatusError nat | FileNotFoundError

subsection \<open>\<open>read_and_compress\<close>\<close>

text \<open>
  \<open>f.read(chunk_size)\<close> on a binary file whose unread part is \<open>rest\<close>: up to
  \<open>chunk_size\<close> bytes, everything when \<open>chunk_size\<close> is -1, nothing when it is 0 or
  the file is at its end. A buffered reader raises \<open>ValueError\<close> for a size below -1;
  \<open>read_and_compress\<close> meets that at its first read, before anything else happens, so
  the loop below runs with sizes from -1 on only.
\<close>

definition f_read :: "int \<Rightarrow> bytes \<Rightarrow> bytes" where
  "f_read chunk_size rest = (if chunk_size < 0 then rest else take (nat chunk_size) rest)"

text \<open>
  The \<open>while True\<close> loop. Its state is the bytes fed to \<open>sha\<close>, the compressor,
  \<open>original_size\<close>, \<open>chunk_count\<close> and \<open>compressed_parts\<close>; \<open>rest\<close> is the unread part
  of the file. The loop ends at the first empty chunk.
\<close>

function read_loop ::
  "'c libs \<Rightarrow> int \<Rightarrow> bytes \<Rightarrow> bytes \<times> 'c \<times> nat \<times> nat \<times> bytes list \<Rightarrow>
     bytes \<times> 'c \<times> nat \<times> nat \<times> bytes list" where
  "read_loop L chunk_size rest (sha, compressor, original_size, chunk_count, compressed_parts) =
     (let chunk = f_read chunk_size rest
      in if chunk = [] then (sha, compressor, original_size, chunk_count, compressed_parts)
         else
           (let step = zlib_compress L compressor chunk;
                compressed_part = snd step
            in read_loop L chunk_size (drop (length chunk) rest)
                 (sha @ chunk, fst step, original_size + length chunk, chunk_count + 1,
                  (if compressed_part \<noteq> [] then compressed_parts @ [compressed_part]
                   else compressed_parts))))"
  by pat_completeness auto
termination
proof (relation "measure (\<lambda>(L, chunk_size, rest, st). length rest)")
  show "wf (measure (\<lambda>(L, chunk_size, rest, st). length rest))"
    by simp
next
  fix L :: "'c libs" and chunk_size :: int and rest chunk :: bytes
    and sha compressor original_size chunk_count compressed_parts step compressed_part
  assume "chunk = f_read chunk_size rest" and "chunk \<noteq> []"
  then have "rest \<noteq> []" and "0 < length chunk"
    by (auto simp: f_read_def split: if_splits)
  then show "((L, chunk_size, drop (length chunk) rest,
               sha @ chunk, fst step, original_size + length chunk, chunk_count + 1,
               (if compressed_part \<noteq> [] then compressed_parts @ [compressed_part]
                else compressed_parts)),
              (L, chunk_size, rest, sha, compressor, original_size, chunk_count,
               compressed_parts))
             \<in> measure (\<lambda>(L, chunk_size, rest, st). length rest)"
    by simp
qed

declare read_loop.simps [simp del]

definition read_and_compress ::
  "'c libs \<Rightarrow> bytes \<Rightarrow> int \<Rightarrow>
     error + bytes \<times> string \<times> nat \<times> nat \<times> real \<times> nat" where
  "read_and_compress L content chunk_size =
     (if chunk_size < - 1 then Inl ValueError
      else case read_loop L chunk_size content ([], zlib_init L, 0, 0, []) of
        (sha, compressor, original_size, chunk_count, compressed_parts) \<Rightarrow>
          (let flushed = zlib_flush L compressor;
               compressed_parts =
                 (if flushed \<noteq> [] then compressed_parts @ [flushed] else compressed_parts);
               compressed = concat compressed_parts;
               compressed_size = length compressed;
               compression_ratio =
                 (if original_size > 0 then real compressed_size / real original_size else 1);
               checksum = sha256_hexdigest L sha
           in Inr (compressed, checksum, original_size, compressed_size, compression_ratio,
                   chunk_count)))"

subsection \<open>The record store and \<open>append_sd_row\<close>\<close>

text \<open>
  One data row of \<open>sd_data.csv\<close>, with the columns of the header row. The four flags
  are written as \<open>int(...)\<close> of a boolean and read back by \<open>int(...)\<close>, so they are
  integers. The store is \<open>None\<close> while the file does not exist; once it exists it holds
  the header row followed by the data rows, of which the model keeps the data rows.
\<close>

record sd_row =
  file_name :: string
  original_size :: int
  compressed_size :: int
  compression_ratio :: real
  latency_ms :: real
  is_large_file :: int
  bug_triggered :: int
  checksum_ok :: int
  failed :: int

type_synonym sd_store = "sd_row list option"

text \<open>\<open>round(x, 3)\<close>: to three decimals, a tie going to the even neighbour.\<close>

definition round3 :: "real \<Rightarrow> real" where
  "round3 x =
     (let y = x * 1000; f = \<lfloor>y\<rfloor>; d = y - of_int f
      in of_int (if d < 1 / 2 then f else if 1 / 2 < d then f + 1
                 else if even f then f else f + 1) / 1000)"

definition append_sd_row ::
  "sd_store \<Rightarrow> string \<Rightarrow> int \<Rightarrow> int \<Rightarrow> real \<Rightarrow> real \<Rightarrow> bool \<Rightarrow> bool \<Rightarrow> bool \<Rightarrow> sd_store" where
  "append_sd_row store name osize csize ratio latency large bug ok =
     (let row = \<lparr>file_name = name,
                 original_size = osize,
                 compressed_size = csize,
                 compression_ratio = ratio,
                 latency_ms = round3 latency,
                 is_large_file = of_bool large,
                 bug_triggered = of_bool bug,
                 checksum_ok = of_bool ok,
                 failed = of_bool (\<not> ok)\<rparr>
      in case store of None \<Rightarrow> Some [row] | Some rows \<Rightarrow> Some (rows @ [row]))"

subsection \<open>\<open>send_file\<close>\<close>

text \<open>
  A response is its status code and the dictionary \<open>response.json()\<close> returns.
  \<open>raise_for_status()\<close> raises for every status code outside 200..299.

  \<open>send_file_finish\<close> is \<open>send_file\<close> from \<open>response.raise_for_status()\<close> to its end:
  it reads three fields of the response, each with a default, and appends the row. It
  does not read the field \<open>status\<close>.
\<close>

type_synonym response = "nat \<times> py_dict"

definition send_file_finish ::
  "sd_store \<Rightarrow> string \<Rightarrow> nat \<Rightarrow> nat \<Rightarrow> real \<Rightarrow> real \<Rightarrow> response \<Rightarrow> error + sd_store" where
  "send_file_finish store name osize csize ratio elapsed_ms response =
     (let status_code = fst response; resp_json = snd response
      in if \<not> (200 \<le> status_code \<and> status_code < 300) then Inl (HTTPStatusError status_code)
         else
           (let ok = py_bool (dict_get resp_json ''checksum_ok'' (JBool True));
                large = py_bool (dict_get resp_json ''is_large_file'' (JBool False));
                bug = py_bool (dict_get resp_json ''bug_triggered'' (JBool False))
            in Inr (append_sd_row store name (int osize) (int csize) ratio elapsed_ms
                      large bug ok)))"

text \<open>
  \<open>send_file\<close>. \<open>post\<close> stands for \<open>httpx.post(SERVER_URL, params=params,
  content=compressed)\<close>: whatever answers at the server's address. \<open>elapsed_ms\<close> is the
  time the client measures around the call. A call that gets no response at all
  (a timeout, a refused connection) is outside the model.
\<close>

definition send_file ::
  "'c libs \<Rightarrow> ((string \<rightharpoonup> string) \<Rightarrow> bytes \<Rightarrow> response) \<Rightarrow> real \<Rightarrow> sd_store \<Rightarrow>
     string \<Rightarrow> bytes \<Rightarrow> error + sd_store" where
  "send_file L post elapsed_ms store name content =
     (case read_and_compress L content (1024 * 1024) of
        Inl e \<Rightarrow> Inl e
      | Inr (compressed, checksum, osize, csize, ratio, chunk_count) \<Rightarrow>
          (let params = [''filename'' \<mapsto> name,
                         ''checksum'' \<mapsto> checksum,
                         ''compression_ratio'' \<mapsto> float_str L ratio];
               response = post params compressed
           in send_file_finish store name osize csize ratio elapsed_ms response))"


section \<open>sd/analyze_sd.py\<close>

text \<open>
  \<open>load_sd_data\<close>: raises when the file does not exist, otherwise returns its data
  rows with the numeric columns converted, which is how \<open>sd_row\<close> holds them.
\<close>

definition load_sd_data :: "sd_store \<Rightarrow> error + sd_row list" where
  "load_sd_data store = (case store of None \<Rightarrow> Inl FileNotFoundError | Some rows \<Rightarrow> Inr rows)"

record baseline =
  total_runs :: nat
  total_failed :: int
  total_passed :: int
  baseline_failure_rate :: real

definition compute_baseline :: "sd_row list \<Rightarrow> baseline" where
  "compute_baseline rows =
     (let runs = length rows;
          nfailed = sum_list (map failed rows);
          npassed = int runs - nfailed;
          rate = (if runs > 0 then real_of_int nfailed / real runs else 0)
      in \<lparr>total_runs = runs, total_failed = nfailed, total_passed = npassed,
          baseline_failure_rate = rate\<rparr>)"

text \<open>
  The dictionary \<open>preds\<close>, in the order its keys are assigned. The bound of P5 is the
  double nearest to 0.8.
\<close>

definition define_predicates :: "sd_row \<Rightarrow> (string \<times> bool) list" where
  "define_predicates row =
     [(''P1_is_large_file'', is_large_file row \<noteq> 0),
      (''P2_bug_triggered'', bug_triggered row \<noteq> 0),
      (''P3_checksum_failed'', \<not> (checksum_ok row \<noteq> 0)),
      (''P4_high_latency'', latency_ms row > 200),
      (''P5_high_compression_ratio'',
         compression_ratio row > 3602879701896397 / 4503599627370496),
      (''P6_very_large_file'', original_size row > 50 * 1024 * 1024),
      (''P7_small_file'', original_size row < 100 * 1024),
      (''P8_medium_file'',
         100 * 1024 \<le> original_size row \<and> original_size row \<le> 10 * 1024 * 1024)]"

text \<open>
  One value of \<open>stats\<close>, and one element of \<open>result\<close> together with its name: both
  dictionaries have these five fields. \<open>stats\<close> is a \<open>defaultdict\<close>; it is an
  association list in the order in which the keys were first used, which is the order
  \<open>stats.items()\<close> yields.
\<close>

record pred_stats =
  failed_P :: nat
  passed_P :: nat
  support :: nat
  failure_P :: real
  increase :: real

type_synonym stats = "(string \<times> pred_stats) list"

definition new_stats :: pred_stats where
  "new_stats = \<lparr>failed_P = 0, passed_P = 0, support = 0, failure_P = 0, increase = 0\<rparr>"

text \<open>The body of the inner loop for a predicate that holds: the updates of \<open>s\<close>.\<close>

definition count_row :: "bool \<Rightarrow> pred_stats \<Rightarrow> pred_stats" where
  "count_row row_failed s =
     (let s = s\<lparr>support := support s + 1\<rparr>
      in if row_failed then s\<lparr>failed_P := failed_P s + 1\<rparr>
         else s\<lparr>passed_P := passed_P s + 1\<rparr>)"

text \<open>\<open>s = stats[name]\<close> followed by the updates: a missing key is added at the end.\<close>

fun bump :: "string \<Rightarrow> bool \<Rightarrow> stats \<Rightarrow> stats" where
  "bump name row_failed [] = [(name, count_row row_failed new_stats)]"
| "bump name row_failed ((k, s) # rest) =
     (if k = name then (k, count_row row_failed s) # rest
      else (k, s) # bump name row_failed rest)"

definition record_row :: "sd_row \<Rightarrow> stats \<Rightarrow> stats" where
  "record_row row st =
     (let row_failed = (failed row \<noteq> 0)
      in fold (\<lambda>(name, val) st. if \<not> val then st else bump name row_failed st)
           (define_predicates row) st)"

definition collect_stats :: "sd_row list \<Rightarrow> stats" where
  "collect_stats rows = fold record_row rows []"

text \<open>The body of the second loop: the scores of one predicate.\<close>

definition score :: "baseline \<Rightarrow> string \<times> pred_stats \<Rightarrow> string \<times> pred_stats" where
  "score b entry =
     (let name = fst entry; s = snd entry;
          fP = (if total_failed b > 0 then real (failed_P s) / real_of_int (total_failed b)
                else 0);
          failure_rate_when_P =
            (if support s > 0 then real (failed_P s) / real (support s) else 0);
          inc = failure_rate_when_P - baseline_failure_rate b
      in (name, s\<lparr>failure_P := fP, increase := inc\<rparr>))"

text \<open>
  \<open>result.sort(key=..., reverse=True)\<close>: the list is reversed, sorted stably in
  ascending order of the key, and reversed again. Keys are pairs, compared
  lexicographically.
\<close>

definition sort_key_fn :: "string \<times> pred_stats \<Rightarrow> real \<times> real" where
  "sort_key_fn r = (increase (snd r), failure_P (snd r))"

definition sort_reverse :: "('a \<Rightarrow> 'k::linorder) \<Rightarrow> 'a list \<Rightarrow> 'a list" where
  "sort_reverse f xs = rev (sort_key f (rev xs))"

definition analyze_predicates :: "sd_row list \<Rightarrow> baseline \<Rightarrow> stats option" where
  "analyze_predicates rows b =
     (if total_runs b = 0 then None
      else Some (sort_reverse sort_key_fn (map (score b) (collect_stats rows))))"

text \<open>
  \<open>main\<close>, with what it prints as a value: the baseline block and then either the
  line ``No predicates had support'' or the ranked table.
\<close>

datatype printed = NoPredicates | Ranked stats

definition main :: "sd_store \<Rightarrow> error + baseline \<times> printed" where
  "main store =
     (case load_sd_data store of
        Inl e \<Rightarrow> Inl e
      | Inr rows \<Rightarrow>
          (let b = compute_baseline rows
           in case analyze_predicates rows b of
                None \<Rightarrow> Inr (b, NoPredicates)
              | Some [] \<Rightarrow> Inr (b, NoPredicates)
              | Some (r # rs) \<Rightarrow> Inr (b, Ranked (r # rs))))"

section \<open>The analyzer's counts in the specification's words\<close>

text \<open>
  What the specification says the aggregation computes, for comparison with the two
  loops of \<open>analyze_predicates\<close>: a predicate holds of a record when
  \<open>define_predicates\<close> gives it the value true; its support is the number of records
  of which it holds, \<open>failed_P\<close> the number of those that failed and \<open>passed_P\<close> the
  number of those that did not. \<open>first_use\<close> lists the predicates in the order in
  which they first hold, going through the records in order and through P1 to P8
  within a record.
\<close>

definition pred_holds :: "string \<Rightarrow> sd_row \<Rightarrow> bool" where
  "pred_holds name row = ((name, True) \<in> set (define_predicates row))"

definition support_of :: "string \<Rightarrow> sd_row list \<Rightarrow> nat" where
  "support_of name rows = length (filter (pred_holds name) rows)"

definition failed_of :: "string \<Rightarrow> sd_row list \<Rightarrow> nat" where
  "failed_of name rows = length (filter (\<lambda>r. pred_holds name r \<and> failed r \<noteq> 0) rows)"

definition passed_of :: "string \<Rightarrow> sd_row list \<Rightarrow> nat" where
  "passed_of name rows = length (filter (\<lambda>r. pred_holds name r \<and> failed r = 0) rows)"

definition first_use :: "sd_row list \<Rightarrow> string list" where
  "first_use rows =
     rev (remdups (rev (concat (map (\<lambda>r. map fst (filter snd (define_predicates r))) rows))))"

text \<open>The entry of \<open>stats\<close> that these counts make, before scoring.\<close>

definition counts :: "string \<Rightarrow> sd_row list \<Rightarrow> pred_stats" where
  "counts name rows =
     \<lparr>failed_P = failed_of name rows, passed_P = passed_of name rows,
      support = support_of name rows, failure_P = 0, increase = 0\<rparr>"

text \<open>
  The rows the client writes have \<open>failed\<close> 0 or 1: \<open>append_sd_row\<close> computes the
  column as \<open>int(not checksum_ok)\<close>.
\<close>

definition rows_wf :: "sd_row list \<Rightarrow> bool" where
  "rows_wf rows = (\<forall>r \<in> set rows. failed r = 0 \<or> failed r = 1)"

text \<open>
  The example of the specification: two large files that failed, one large file that
  passed and one small file that passed. The fields the example leaves open are
  filled in so that no other size, latency or ratio predicate holds of the large
  files, and the failures are the corrupted uploads.
\<close>

definition example_row :: "string \<Rightarrow> int \<Rightarrow> bool \<Rightarrow> bool \<Rightarrow> sd_row" where
  "example_row name osize large fails =
     \<lparr>file_name = name, original_size = osize, compressed_size = osize div 2,
      compression_ratio = 1 / 2, latency_ms = 100,
      is_large_file = of_bool large, bug_triggered = of_bool fails,
      checksum_ok = of_bool (\<not> fails), failed = of_bool fails\<rparr>"

definition example_rows :: "sd_row list" where
  "example_rows =
     [example_row ''a.bin'' 20971520 True True,
      example_row ''b.bin'' 20971520 True True,
      example_row ''c.bin'' 20971520 True False,
      example_row ''d.txt'' 1000 False False]"

section \<open>What the compressor promises\<close>

text \<open>
  The stream a compressor in state \<open>c\<close> emits when it is fed the chunks one by one and
  then flushed, and the promise of \<open>zlib\<close> that the client and the server rely on:
  decompressing the stream of a fresh compressor gives back the bytes fed to it. The
  promise is a hypothesis wherever it is needed; nothing in the model assumes it.
\<close>

fun zlib_stream :: "'c libs \<Rightarrow> 'c \<Rightarrow> bytes list \<Rightarrow> bytes" where
  "zlib_stream L c [] = zlib_flush L c"
| "zlib_stream L c (chunk # chunks) =
     snd (zlib_compress L c chunk) @ zlib_stream L (fst (zlib_compress L c chunk)) chunks"

definition zlib_roundtrip :: "'c libs \<Rightarrow> bool" where
  "zlib_roundtrip L =
     (\<forall>chunks. zlib_decompress L (zlib_stream L (zlib_init L) chunks) = Inr (concat chunks))"

section \<open>The corruption oracle in the specification's words\<close>

text \<open>
  \<open>maybe_corrupt(payload, original_size)\<close> as the specification describes it, for
  comparison with what \<open>upload_file\<close> does in line: no change unless enabled and the
  payload is longer than the threshold; then corruption triggers iff the sample is below
  the probability; on trigger the last \<open>CORRUPT_TAIL_BYTES\<close> bytes become zero, or nothing
  changes when the payload is shorter than that. The result is the payload and whether
  corruption triggered.
\<close>

definition maybe_corrupt :: "config \<Rightarrow> bytes \<Rightarrow> real \<Rightarrow> bytes \<times> bool" where
  "maybe_corrupt cfg payload sample =
     (if BUG_ENABLED cfg \<and> length payload > LARGE_FILE_THRESHOLD cfg then
        (if sample < BUG_PROBABILITY cfg then
           (if length payload < CORRUPT_TAIL_BYTES cfg then (payload, True)
            else (take (length payload - CORRUPT_TAIL_BYTES cfg) payload
                    @ replicate (CORRUPT_TAIL_BYTES cfg) 0, True))
         else (payload, False))
      else (payload, False))"

section \<open>A stand-in for the libraries\<close>

text \<open>
  The theorems below hold for every library record. To evaluate the model at concrete
  inputs, this instance is used: its compressed stream is the data followed by one
  byte 255, its decompressor rejects a body without that trailer, and its digest is
  one letter for every non-zero byte of the message.
\<close>

definition demo_libs :: "unit libs" where
  "demo_libs =
     \<lparr>sha256_hexdigest = (\<lambda>m. replicate (length (filter (\<lambda>b. b \<noteq> 0) m)) CHR ''f''),
      zlib_init = (),
      zlib_compress = (\<lambda>c chunk. (c, chunk)),
      zlib_flush = (\<lambda>c. [255]),
      zlib_decompress =
        (\<lambda>body. if body = [] then Inl ''incomplete stream''
                else if last body = 255 then Inr (butlast body)
                else Inl ''bad trailer''),
      float_str = (\<lambda>x. ''0.0'')\<rparr>"

section \<open>The upload handler\<close>

text \<open>
  What \<open>upload_file\<close> returns once the metadata is present and the body decompresses.
\<close>

lemma upload_file_ok:
  assumes "zlib_decompress L body = Inr data"
    and "\<not> py_not (params ''filename'')" and "\<not> py_not (params ''checksum'')"
  shows "upload_file L cfg params body draw =
     (let is_large = (length data > LARGE_FILE_THRESHOLD cfg);
          trig = (BUG_ENABLED cfg \<and> is_large \<and> draw < BUG_PROBABILITY cfg);
          payload = (if trig \<and> length data \<ge> CORRUPT_TAIL_BYTES cfg
                     then zero_tail (CORRUPT_TAIL_BYTES cfg) data else data)
      in ([(''status'', JStr ''ok''),
           (''filename'', (case params ''filename'' of None \<Rightarrow> JNull | Some s \<Rightarrow> JStr s)),
           (''checksum_ok'', JBool (Some (sha256_hexdigest L payload) = params ''checksum'')),
           (''server_checksum'', JStr (sha256_hexdigest L payload)),
           (''compression_ratio'',
              (case params ''compression_ratio'' of None \<Rightarrow> JNull | Some s \<Rightarrow> JStr s)),
           (''original_size'', JInt (int (length data))),
           (''compressed_size'', JInt (int (length body))),
           (''is_large_file'', JBool is_large),
           (''bug_triggered'', JBool trig)],
          Some (params ''filename'', payload)))"
  using assms by (simp add: upload_file_def Let_def)

text \<open>
  Claim C6. A payload no longer than \<open>LARGE_FILE_THRESHOLD\<close> is never corrupted:
  \<open>bug_triggered\<close> is false, the bytes handed on are the decompressed bytes and the
  server's digest is theirs, whatever the random draw and whatever the configuration,
  a probability of 1 included.
\<close>

theorem oracle_silent_below_threshold:
  assumes "zlib_decompress L body = Inr data"
    and "\<not> py_not (params ''filename'')" and "\<not> py_not (params ''checksum'')"
    and "length data \<le> LARGE_FILE_THRESHOLD cfg"
  shows "map_of (fst (upload_file L cfg params body draw)) ''bug_triggered'' = Some (JBool False)
       \<and> snd (upload_file L cfg params body draw) = Some (params ''filename'', data)
       \<and> map_of (fst (upload_file L cfg params body draw)) ''server_checksum''
           = Some (JStr (sha256_hexdigest L data))"
  using assms by (simp add: upload_file_ok Let_def)


theorem oracle_silent_below_threshold_witness:
  "zlib_decompress demo_libs [1, 2, 3, 255] = Inr [1, 2, 3]
   \<and> \<not> py_not ([''filename'' \<mapsto> ''a.bin'', ''checksum'' \<mapsto> ''fff''] ''filename'')
   \<and> \<not> py_not ([''filename'' \<mapsto> ''a.bin'', ''checksum'' \<mapsto> ''fff''] ''checksum'')
   \<and> length [1, 2, 3 :: byte] \<le> LARGE_FILE_THRESHOLD (bug_config\<lparr>BUG_PROBABILITY := 1\<rparr>)
   \<and> map_of (fst (upload_file demo_libs (bug_config\<lparr>BUG_PROBABILITY := 1\<rparr>)
          [''filename'' \<mapsto> ''a.bin'', ''checksum'' \<mapsto> ''fff''] [1, 2, 3, 255] 0))
        ''bug_triggered'' = Some (JBool False)
   \<and> snd (upload_file demo_libs (bug_config\<lparr>BUG_PROBABILITY := 1\<rparr>)
          [''filename'' \<mapsto> ''a.bin'', ''checksum'' \<mapsto> ''fff''] [1, 2, 3, 255] 0)
        = Some (Some ''a.bin'', [1, 2, 3])"
proof -
  have d: "zlib_decompress demo_libs [1, 2, 3, 255] = Inr [1, 2, 3]"
    by (simp add: demo_libs_def)
  have f: "\<not> py_not ([''filename'' \<mapsto> ''a.bin'', ''checksum'' \<mapsto> ''fff''] ''filename'')"
    by simp
  have c: "\<not> py_not ([''filename'' \<mapsto> ''a.bin'', ''checksum'' \<mapsto> ''fff''] ''checksum'')"
    by simp
  have t: "length [1, 2, 3 :: byte] \<le> LARGE_FILE_THRESHOLD (bug_config\<lparr>BUG_PROBABILITY := 1\<rparr>)"
    by (simp add: bug_config_def)
  have e: "[''filename'' \<mapsto> ''a.bin'', ''checksum'' \<mapsto> ''fff''] ''filename'' = Some ''a.bin''"
    by simp
  from oracle_silent_below_threshold [OF d f c t, of 0, unfolded e] d f c t show ?thesis
    by blast
qed

text \<open>
  Claim C7. When corruption triggers (the oracle is enabled, the payload is longer than
  the threshold and the draw is below the probability) and the payload has at least
  \<open>CORRUPT_TAIL_BYTES\<close> bytes, its last \<open>CORRUPT_TAIL_BYTES\<close> bytes become zero and
  every byte before them, and the length, stay as they were; when the payload is
  shorter, its bytes are unchanged and \<open>bug_triggered\<close> is reported true all the same.
  The tail length is positive, as 1024 is. (With the constants of the module the
  threshold exceeds the tail length, so the second case needs another configuration.)
\<close>

theorem oracle_zeroes_tail:
  assumes "zlib_decompress L body = Inr data"
    and "\<not> py_not (params ''filename'')" and "\<not> py_not (params ''checksum'')"
    and "BUG_ENABLED cfg" and "length data > LARGE_FILE_THRESHOLD cfg"
    and "draw < BUG_PROBABILITY cfg"
    and "0 < CORRUPT_TAIL_BYTES cfg"
  shows "\<exists>payload.
           snd (upload_file L cfg params body draw) = Some (params ''filename'', payload)
         \<and> map_of (fst (upload_file L cfg params body draw)) ''bug_triggered''
             = Some (JBool True)
         \<and> (length data \<ge> CORRUPT_TAIL_BYTES cfg \<longrightarrow>
               length payload = length data
             \<and> (\<forall>i < length data - CORRUPT_TAIL_BYTES cfg. payload ! i = data ! i)
             \<and> (\<forall>i. length data - CORRUPT_TAIL_BYTES cfg \<le> i \<and> i < length data
                    \<longrightarrow> payload ! i = 0))
         \<and> (length data < CORRUPT_TAIL_BYTES cfg \<longrightarrow> payload = data)"
proof (cases "length data \<ge> CORRUPT_TAIL_BYTES cfg")
  case True
  let ?n = "CORRUPT_TAIL_BYTES cfg"
  let ?p = "zero_tail ?n data"
  have p: "?p = take (length data - ?n) data @ replicate ?n 0"
    using assms(7) by (simp add: zero_tail_def)
  have len: "length ?p = length data"
    using True by (simp add: p)
  have keep: "\<forall>i < length data - ?n. ?p ! i = data ! i"
    by (simp add: p nth_append)
  have zero: "\<forall>i. length data - ?n \<le> i \<and> i < length data \<longrightarrow> ?p ! i = 0"
    using True by (auto simp: p nth_append)
  show ?thesis
    using assms True len keep zero
    by (simp add: upload_file_ok Let_def)
next
  case False
  then show ?thesis
    using assms by (simp add: upload_file_ok Let_def)
qed


theorem oracle_zeroes_tail_witness:
  "(\<exists>payload.
      snd (upload_file demo_libs bug_config
             [''filename'' \<mapsto> ''big.bin'', ''checksum'' \<mapsto> ''ff'']
             (replicate 10485761 1 @ [255]) 0) = Some (Some ''big.bin'', payload)
    \<and> length payload = 10485761
    \<and> payload ! 0 = 1 \<and> payload ! 10484736 = 1
    \<and> payload ! 10484737 = 0 \<and> payload ! 10485760 = 0)
   \<and> (\<exists>payload.
      snd (upload_file demo_libs (bug_config\<lparr>LARGE_FILE_THRESHOLD := 2\<rparr>)
             [''filename'' \<mapsto> ''big.bin'', ''checksum'' \<mapsto> ''ff'']
             [1, 2, 3, 255] 0) = Some (Some ''big.bin'', payload)
    \<and> map_of (fst (upload_file demo_libs (bug_config\<lparr>LARGE_FILE_THRESHOLD := 2\<rparr>)
             [''filename'' \<mapsto> ''big.bin'', ''checksum'' \<mapsto> ''ff'']
             [1, 2, 3, 255] 0)) ''bug_triggered'' = Some (JBool True)
    \<and> payload = [1, 2, 3])"
proof -
  let ?P = "[''filename'' \<mapsto> ''big.bin'', ''checksum'' \<mapsto> ''ff'']"
  let ?big = "replicate 10485761 (1 :: byte)"
  have e: "?P ''filename'' = Some ''big.bin''"
    by simp
  have f: "\<not> py_not (?P ''filename'')" and c: "\<not> py_not (?P ''checksum'')"
    by simp_all
  have d1: "zlib_decompress demo_libs (?big @ [255]) = Inr ?big"
    by (simp add: demo_libs_def)
  have g1: "BUG_ENABLED bug_config" "length ?big > LARGE_FILE_THRESHOLD bug_config"
    "0 < BUG_PROBABILITY bug_config" "0 < CORRUPT_TAIL_BYTES bug_config"
    by (simp_all add: bug_config_def)
  have n1: "length ?big = 10485761" "CORRUPT_TAIL_BYTES bug_config = 1024"
    "(10485761 :: nat) - 1024 = 10484737" "((1024 :: nat) \<le> 10485761) = True"
    by (simp_all add: bug_config_def)
  from oracle_zeroes_tail [OF d1 f c g1, unfolded e n1]
  obtain p1 where p1: "snd (upload_file demo_libs bug_config ?P (?big @ [255]) 0)
        = Some (Some ''big.bin'', p1)"
    "length p1 = 10485761"
    "\<forall>i < 10484737. p1 ! i = ?big ! i"
    "\<forall>i. 10484737 \<le> i \<and> i < 10485761 \<longrightarrow> p1 ! i = 0"
    by blast
  have v1: "p1 ! 0 = 1" "p1 ! 10484736 = 1" "p1 ! 10484737 = 0" "p1 ! 10485760 = 0"
    using p1(3,4) by simp_all
  let ?cfg = "bug_config\<lparr>LARGE_FILE_THRESHOLD := 2\<rparr>"
  have d2: "zlib_decompress demo_libs [1, 2, 3, 255] = Inr [1, 2, 3]"
    by (simp add: demo_libs_def)
  have g2: "BUG_ENABLED ?cfg" "length [1, 2, 3 :: byte] > LARGE_FILE_THRESHOLD ?cfg"
    "0 < BUG_PROBABILITY ?cfg" "0 < CORRUPT_TAIL_BYTES ?cfg"
    by (simp_all add: bug_config_def)
  have n2: "length [1, 2, 3 :: byte] < CORRUPT_TAIL_BYTES ?cfg"
    by (simp add: bug_config_def)
  from oracle_zeroes_tail [OF d2 f c g2, unfolded e] n2
  obtain p2 where p2: "snd (upload_file demo_libs ?cfg ?P [1, 2, 3, 255] 0)
        = Some (Some ''big.bin'', p2)"
    "map_of (fst (upload_file demo_libs ?cfg ?P [1, 2, 3, 255] 0)) ''bug_triggered''
        = Some (JBool True)"
    "p2 = [1, 2, 3]"
    by blast
  from p1(1,2) v1 p2 show ?thesis
    by blast
qed

text \<open>
  With a positive tail length, the in-line corruption of \<open>upload_file\<close> is the oracle
  of the specification.
\<close>

lemma maybe_corrupt_inline:
  assumes "0 < CORRUPT_TAIL_BYTES cfg"
  shows "maybe_corrupt cfg data draw =
     (let trig = (BUG_ENABLED cfg \<and> length data > LARGE_FILE_THRESHOLD cfg
                  \<and> draw < BUG_PROBABILITY cfg)
      in (if trig \<and> length data \<ge> CORRUPT_TAIL_BYTES cfg
          then zero_tail (CORRUPT_TAIL_BYTES cfg) data else data, trig))"
  using assms by (auto simp: maybe_corrupt_def zero_tail_def Let_def)

text \<open>
  Claim C2. For an upload that decompresses, \<open>checksum_ok\<close> is true iff the digest of
  the payload as the oracle leaves it equals the checksum the client sent. The digest
  reported, the flag \<open>bug_triggered\<close> and the bytes handed to the writer are those of
  the oracle's result too: corruption comes before the comparison.
\<close>

theorem checksum_after_corruption:
  assumes "zlib_decompress L body = Inr data"
    and "\<not> py_not (params ''filename'')"
    and "params ''checksum'' = Some checksum" and "checksum \<noteq> []"
    and "0 < CORRUPT_TAIL_BYTES cfg"
  shows "map_of (fst (upload_file L cfg params body draw)) ''checksum_ok''
           = Some (JBool (sha256_hexdigest L (fst (maybe_corrupt cfg data draw)) = checksum))
       \<and> map_of (fst (upload_file L cfg params body draw)) ''server_checksum''
           = Some (JStr (sha256_hexdigest L (fst (maybe_corrupt cfg data draw))))
       \<and> map_of (fst (upload_file L cfg params body draw)) ''bug_triggered''
           = Some (JBool (snd (maybe_corrupt cfg data draw)))
       \<and> snd (upload_file L cfg params body draw)
           = Some (params ''filename'', fst (maybe_corrupt cfg data draw))"
proof -
  have c: "\<not> py_not (params ''checksum'')"
    using assms(3,4) by simp
  show ?thesis
    using assms(3)
    by (simp add: upload_file_ok [OF assms(1,2) c] maybe_corrupt_inline [OF assms(5)] Let_def)
qed

theorem checksum_after_corruption_witness:
  "map_of (fst (upload_file demo_libs bug_config
      [''filename'' \<mapsto> ''big.bin'', ''checksum'' \<mapsto> replicate 10485761 CHR ''f'']
      (replicate 10485761 1 @ [255]) 0)) ''checksum_ok'' = Some (JBool False)
   \<and> map_of (fst (upload_file demo_libs bug_config
      [''filename'' \<mapsto> ''big.bin'', ''checksum'' \<mapsto> replicate 10485761 CHR ''f'']
      (replicate 10485761 1 @ [255]) 0)) ''server_checksum''
        = Some (JStr (replicate 10484737 CHR ''f''))
   \<and> sha256_hexdigest demo_libs (replicate 10485761 1) = replicate 10485761 CHR ''f''"
proof -
  let ?sum = "replicate 10485761 CHR ''f''"
  let ?P = "[''filename'' \<mapsto> ''big.bin'', ''checksum'' \<mapsto> ?sum]"
  let ?big = "replicate 10485761 (1 :: byte)"
  have f: "\<not> py_not (?P ''filename'')" and c: "?P ''checksum'' = Some ?sum" and n: "?sum \<noteq> []"
    by simp_all
  have d: "zlib_decompress demo_libs (?big @ [255]) = Inr ?big"
    by (simp add: demo_libs_def)
  have l: "0 < CORRUPT_TAIL_BYTES bug_config"
    by (simp add: bug_config_def)
  have m: "maybe_corrupt bug_config ?big 0 = (replicate 10484737 1 @ replicate 1024 0, True)"
    by (simp add: maybe_corrupt_def bug_config_def)
  have h: "sha256_hexdigest demo_libs (replicate 10484737 1 @ replicate 1024 0)
             = replicate 10484737 CHR ''f''"
    "sha256_hexdigest demo_libs ?big = ?sum"
    by (simp_all add: demo_libs_def)
  have ne: "(replicate 10484737 CHR ''f'' = ?sum) = False"
    by (simp add: replicate_eq_replicate)
  from checksum_after_corruption [OF d f c n l, of 0, unfolded m fst_conv snd_conv h ne] h(2)
  show ?thesis
    by blast
qed

section \<open>The stream codec\<close>

text \<open>
  With a chunk size of 0 the first read is empty and the loop ends at once; with any
  other chunk size the loop feeds the whole file, in order, to the hash and to the
  compressor, and the parts collected so far followed by a flush are the compressor's
  stream for the chunks read. The stand-in compressor keeps the promise of \<open>zlib\<close>.
\<close>

lemma read_loop_zero:
  "read_loop L 0 rest st = st"
  by (cases st) (simp add: read_loop.simps f_read_def)

lemma read_loop_feeds_all:
  assumes "chunk_size \<noteq> 0"
  shows "case st of (sha, c, n, k, parts) \<Rightarrow>
           (case read_loop L chunk_size rest st of (sha', c', n', k', parts') \<Rightarrow>
              sha' = sha @ rest \<and> n' = n + length rest
            \<and> (\<exists>chunks. concat chunks = rest
                 \<and> concat parts' @ zlib_flush L c' = concat parts @ zlib_stream L c chunks))"
  using assms
proof (induction L chunk_size rest st rule: read_loop.induct)
  case (1 L chunk_size rest sha compressor original_size chunk_count compressed_parts)
  let ?chunk = "f_read chunk_size rest"
  show ?case
  proof (cases "?chunk = []")
    case True
    then have "rest = []"
      using "1.prems" by (auto simp: f_read_def split: if_splits)
    have "read_loop L chunk_size rest
        (sha, compressor, original_size, chunk_count, compressed_parts)
        = (sha, compressor, original_size, chunk_count, compressed_parts)"
      using True by (subst read_loop.simps) (simp add: Let_def)
    moreover have "concat ([] :: bytes list) = rest"
      using \<open>rest = []\<close> by simp
    ultimately show ?thesis
      using \<open>rest = []\<close> by (auto intro: exI [of _ "[]"])
  next
    case False
    let ?step = "zlib_compress L compressor ?chunk"
    let ?parts = "if snd ?step \<noteq> [] then compressed_parts @ [snd ?step] else compressed_parts"
    let ?st = "(sha @ ?chunk, fst ?step, original_size + length ?chunk, chunk_count + 1, ?parts)"
    have split: "?chunk @ drop (length ?chunk) rest = rest"
      by (auto simp: f_read_def min_def)
    have unfold: "read_loop L chunk_size rest
        (sha, compressor, original_size, chunk_count, compressed_parts)
        = read_loop L chunk_size (drop (length ?chunk) rest) ?st"
      using False by (subst read_loop.simps) (simp add: Let_def)
    obtain sha' c' n' k' parts' where
      r: "read_loop L chunk_size (drop (length ?chunk) rest) ?st = (sha', c', n', k', parts')"
      by (metis prod_cases5)
    from "1.IH" [OF refl False refl refl "1.prems"] r
    obtain chunks where ih: "sha' = (sha @ ?chunk) @ drop (length ?chunk) rest"
      "n' = original_size + length ?chunk + length (drop (length ?chunk) rest)"
      "concat chunks = drop (length ?chunk) rest"
      "concat parts' @ zlib_flush L c' = concat ?parts @ zlib_stream L (fst ?step) chunks"
      by auto
    have a: "sha' = sha @ rest"
      using ih(1) split by (metis append.assoc)
    have b: "n' = original_size + length rest"
      using ih(2) split by (metis add.assoc length_append)
    have c: "concat (?chunk # chunks) = rest"
      using ih(3) split by simp
    have d: "concat parts' @ zlib_flush L c'
        = concat compressed_parts @ zlib_stream L compressor (?chunk # chunks)"
      using ih(4) by simp
    show ?thesis
      unfolding unfold r using a b c d by blast
  qed
qed


lemma demo_libs_stream: "zlib_stream demo_libs c chunks = concat chunks @ [255]"
  by (induction chunks arbitrary: c) (simp_all add: demo_libs_def)

lemma demo_libs_roundtrip: "zlib_roundtrip demo_libs"
  unfolding zlib_roundtrip_def
proof
  fix chunks :: "bytes list"
  have "zlib_decompress demo_libs (concat chunks @ [255]) = Inr (concat chunks)"
    by (simp add: demo_libs_def)
  then show "zlib_decompress demo_libs (zlib_stream demo_libs (zlib_init demo_libs) chunks)
      = Inr (concat chunks)"
    by (simp only: demo_libs_stream)
qed

lemma demo_read_and_compress:
  "read_and_compress demo_libs [1, 2, 3] 2 = Inr ([1, 2, 3, 255], ''fff'', 3, 4, 4 / 3, 2)"
  "read_and_compress demo_libs [] 2 = Inr ([255], [], 0, 1, 1, 0)"
  "read_and_compress demo_libs [1, 2, 3] 0 = Inr ([255], [], 0, 1, 1, 0)"
  "read_and_compress demo_libs [1, 2, 3] (- 2) = Inl ValueError"
  by (simp_all add: read_and_compress_def read_loop.simps f_read_def demo_libs_def Let_def)

text \<open>
  Claim C8. For every byte sequence, the empty one included, read in chunks of any
  size that \<open>read\<close> accepts other than 0: \<open>read_and_compress\<close> returns, decompressing
  its joined output, as the server does, gives back exactly the bytes of the file,
  provided the compressor keeps the promise of \<open>zlib\<close>, and the digest computed chunk
  by chunk is the digest of the whole file in one pass.
\<close>

theorem codec_roundtrip:
  assumes "zlib_roundtrip L" and "chunk_size \<noteq> 0" and "- 1 \<le> chunk_size"
  shows "\<exists>compressed checksum osize csize ratio n.
           read_and_compress L content chunk_size
             = Inr (compressed, checksum, osize, csize, ratio, n)
         \<and> zlib_decompress L compressed = Inr content
         \<and> checksum = sha256_hexdigest L content"
proof -
  obtain sha c n k parts where
    r: "read_loop L chunk_size content ([], zlib_init L, 0, 0, []) = (sha, c, n, k, parts)"
    by (metis prod_cases5)
  from read_loop_feeds_all [OF assms(2), where st = "([], zlib_init L, 0, 0, [])" and L = L
      and rest = content] r
  obtain chunks where sha: "sha = content" and chunks: "concat chunks = content"
    and out: "concat parts @ zlib_flush L c = zlib_stream L (zlib_init L) chunks"
    by auto
  have "concat (if zlib_flush L c \<noteq> [] then parts @ [zlib_flush L c] else parts)
      = zlib_stream L (zlib_init L) chunks"
    using out by auto
  moreover have "zlib_decompress L (zlib_stream L (zlib_init L) chunks) = Inr content"
    using assms(1) chunks by (simp add: zlib_roundtrip_def)
  ultimately show ?thesis
    using sha assms(3) by (simp add: read_and_compress_def r Let_def)
qed

theorem codec_roundtrip_witness:
  "zlib_roundtrip demo_libs \<and> (2 :: int) \<noteq> 0 \<and> - 1 \<le> (2 :: int)
   \<and> read_and_compress demo_libs [1, 2, 3] 2 = Inr ([1, 2, 3, 255], ''fff'', 3, 4, 4 / 3, 2)
   \<and> zlib_decompress demo_libs [1, 2, 3, 255] = Inr [1, 2, 3]
   \<and> ''fff'' = sha256_hexdigest demo_libs [1, 2, 3]"
proof -
  have two: "(2 :: int) \<noteq> 0" "- 1 \<le> (2 :: int)"
    by simp_all
  from codec_roundtrip [OF demo_libs_roundtrip two, where content = "[1, 2, 3]",
      unfolded demo_read_and_compress(1)]
  have "zlib_decompress demo_libs [1, 2, 3, 255] = Inr [1, 2, 3]
      \<and> ''fff'' = sha256_hexdigest demo_libs [1, 2, 3]"
    by simp
  with demo_libs_roundtrip two demo_read_and_compress(1) show ?thesis
    by blast
qed

text \<open>
  Claim C9. The ratio \<open>read_and_compress\<close> returns is \<open>compressed_size / original_size\<close>
  when \<open>original_size > 0\<close> and exactly 1 when \<open>original_size = 0\<close>, where
  \<open>compressed_size\<close> is the length of the output and \<open>original_size\<close> the length of the
  file (0 when the chunk size is 0, since nothing is read then). It returns nothing
  only for a chunk size below -1.
\<close>

theorem compression_ratio_value:
  "case read_and_compress L content chunk_size of
     Inl e \<Rightarrow> chunk_size < - 1
   | Inr (compressed, checksum, osize, csize, ratio, n) \<Rightarrow>
       - 1 \<le> chunk_size
     \<and> csize = length compressed
     \<and> (chunk_size \<noteq> 0 \<longrightarrow> osize = length content)
     \<and> (chunk_size = 0 \<longrightarrow> osize = 0)
     \<and> (osize > 0 \<longrightarrow> ratio = real csize / real osize)
     \<and> (osize = 0 \<longrightarrow> ratio = 1)"
proof -
  obtain sha c n k parts where
    r: "read_loop L chunk_size content ([], zlib_init L, 0, 0, []) = (sha, c, n, k, parts)"
    by (metis prod_cases5)
  have size: "chunk_size \<noteq> 0 \<Longrightarrow> n = length content"
    using read_loop_feeds_all [where chunk_size = chunk_size
        and st = "([], zlib_init L, 0, 0, [])" and L = L and rest = content] r
    by auto
  have zero: "n = 0" if "chunk_size = 0"
  proof -
    have "read_loop L 0 content ([], zlib_init L, 0, 0, []) = (sha, c, n, k, parts)"
      using r that by (simp only:)
    then show ?thesis
      by (simp only: read_loop_zero prod.inject)
  qed
  show ?thesis
    using size zero by (simp add: read_and_compress_def r Let_def)
qed

theorem compression_ratio_value_witness:
  "(case read_and_compress demo_libs [1, 2, 3] 2 of
      Inl e \<Rightarrow> False
    | Inr (compressed, checksum, osize, csize, ratio, n) \<Rightarrow>
        osize = 3 \<and> csize = 4 \<and> ratio = 4 / 3)
   \<and> (case read_and_compress demo_libs [] 2 of
      Inl e \<Rightarrow> False
    | Inr (compressed, checksum, osize, csize, ratio, n) \<Rightarrow> osize = 0 \<and> ratio = 1)"
proof -
  have a: "read_and_compress demo_libs [1, 2, 3] 2
      = Inr ([1, 2, 3, 255], ''fff'', 3, 4, 4 / 3, 2)"
    by (rule demo_read_and_compress)
  have b: "read_and_compress demo_libs [] 2 = Inr ([255], [], 0, 1, 1, 0)"
    by (rule demo_read_and_compress)
  from compression_ratio_value [where L = demo_libs and content = "[1, 2, 3]" and chunk_size = 2]
    compression_ratio_value [where L = demo_libs and content = "[]" and chunk_size = 2]
  show ?thesis
    by (simp add: a b)
qed

section \<open>The analyzer\<close>

subsection \<open>The dictionary \<open>stats\<close>\<close>

lemma bump_keys:
  "map fst (bump n f st) = (if n \<in> set (map fst st) then map fst st else map fst st @ [n])"
  by (induction st) force+

lemma bump_map_of:
  "map_of (bump n f st) m =
     (if m = n then Some (count_row f (case map_of st n of None \<Rightarrow> new_stats | Some s \<Rightarrow> s))
      else map_of st m)"
  by (induction st) auto

lemma first_occurrences_snoc:
  "rev (remdups (rev (xs @ [n]))) =
     (if n \<in> set xs then rev (remdups (rev xs)) else rev (remdups (rev xs)) @ [n])"
  by simp

lemma fold_preds_keys:
  assumes "map fst st = rev (remdups (rev ks))"
  shows "map fst (fold (\<lambda>(name, val) st. if \<not> val then st else bump name f st) ps st)
           = rev (remdups (rev (ks @ map fst (filter snd ps))))"
  using assms
proof (induction ps arbitrary: st ks)
  case Nil
  then show ?case by simp
next
  case (Cons p ps)
  obtain n v where p: "p = (n, v)"
    by (cases p)
  show ?case
  proof (cases v)
    case False
    with p Cons.IH [OF Cons.prems] show ?thesis
      by simp
  next
    case True
    have "map fst (bump n f st) = rev (remdups (rev (ks @ [n])))"
      using Cons.prems
      by (simp only: bump_keys first_occurrences_snoc set_rev set_remdups split: if_splits)
    from Cons.IH [OF this] p True show ?thesis
      by simp
  qed
qed

lemma fold_preds_map_of:
  assumes "distinct (map fst ps)"
  shows "map_of (fold (\<lambda>(name, val) st. if \<not> val then st else bump name f st) ps st) m =
     (if (m, True) \<in> set ps
      then Some (count_row f (case map_of st m of None \<Rightarrow> new_stats | Some s \<Rightarrow> s))
      else map_of st m)"
  using assms
proof (induction ps arbitrary: st)
  case Nil
  then show ?case by simp
next
  case (Cons p ps)
  obtain n v where p: "p = (n, v)"
    by (cases p)
  have later: "(n, True) \<notin> set ps"
    using Cons.prems p by (auto simp: image_iff)
  have d: "distinct (map fst ps)"
    using Cons.prems by simp
  show ?case
  proof (cases v)
    case False
    with p Cons.IH [OF d, of st] show ?thesis
      by auto
  next
    case True
    with p later Cons.IH [OF d, of "bump n f st"] show ?thesis
      by (auto simp: bump_map_of)
  qed
qed

lemma define_predicates_distinct: "distinct (map fst (define_predicates row))"
  by (simp add: define_predicates_def)

lemma record_row_keys:
  assumes "map fst st = rev (remdups (rev ks))"
  shows "map fst (record_row row st)
           = rev (remdups (rev (ks @ map fst (filter snd (define_predicates row)))))"
  using fold_preds_keys [OF assms] by (simp add: record_row_def Let_def)

lemma record_row_map_of:
  "map_of (record_row row st) m =
     (if pred_holds m row
      then Some (count_row (failed row \<noteq> 0)
                   (case map_of st m of None \<Rightarrow> new_stats | Some s \<Rightarrow> s))
      else map_of st m)"
  using fold_preds_map_of [OF define_predicates_distinct]
  by (simp add: record_row_def pred_holds_def Let_def)

subsection \<open>The counts\<close>

lemma counts_none: "support_of n rows = 0 \<Longrightarrow> counts n rows = new_stats"
  by (auto simp: counts_def new_stats_def support_of_def failed_of_def passed_of_def
      filter_empty_conv)

lemma counts_snoc:
  "counts n (rows @ [r]) =
     (if pred_holds n r then count_row (failed r \<noteq> 0) (counts n rows) else counts n rows)"
  by (simp add: counts_def count_row_def support_of_def failed_of_def passed_of_def Let_def)

lemma support_snoc:
  "support_of n (rows @ [r]) = support_of n rows + (if pred_holds n r then 1 else 0)"
  by (simp add: support_of_def)

lemma fold_record_row_map_of:
  assumes "\<And>m. map_of st m = (if support_of m seen = 0 then None else Some (counts m seen))"
  shows "map_of (fold record_row rows st) m =
     (if support_of m (seen @ rows) = 0 then None else Some (counts m (seen @ rows)))"
  using assms
proof (induction rows arbitrary: st seen m)
  case Nil
  then show ?case by simp
next
  case (Cons r rows)
  have step: "map_of (record_row r st) k =
      (if support_of k (seen @ [r]) = 0 then None else Some (counts k (seen @ [r])))" for k
    by (simp add: record_row_map_of Cons.prems counts_snoc support_snoc counts_none)
  from Cons.IH [of "record_row r st" "seen @ [r]", OF step] show ?case
    by simp
qed

lemma fold_record_row_keys:
  assumes "map fst st = rev (remdups (rev ks))"
  shows "map fst (fold record_row rows st) =
     rev (remdups (rev (ks
       @ concat (map (\<lambda>r. map fst (filter snd (define_predicates r))) rows))))"
  using assms
proof (induction rows arbitrary: st ks)
  case Nil
  then show ?case by simp
next
  case (Cons r rows)
  from Cons.IH [OF record_row_keys [OF Cons.prems]] show ?case
    by simp
qed

lemma collect_stats_keys: "map fst (collect_stats rows) = first_use rows"
  using fold_record_row_keys [of "[]" "[]" rows]
  by (simp add: collect_stats_def first_use_def)

lemma collect_stats_distinct: "distinct (map fst (collect_stats rows))"
  by (simp add: collect_stats_keys first_use_def)

lemma collect_stats_map_of:
  "map_of (collect_stats rows) m =
     (if support_of m rows = 0 then None else Some (counts m rows))"
  using fold_record_row_map_of [where st = "[]" and seen = "[]" and m = m and rows = rows]
  by (simp add: collect_stats_def support_of_def)

lemma collect_stats_mem:
  "(n, s) \<in> set (collect_stats rows) \<longleftrightarrow> support_of n rows \<noteq> 0 \<and> s = counts n rows"
proof -
  have "(n, s) \<in> set (collect_stats rows) \<longleftrightarrow> map_of (collect_stats rows) n = Some s"
    by (simp only: map_of_eq_Some_iff [OF collect_stats_distinct])
  then show ?thesis
    by (auto simp: collect_stats_map_of)
qed

subsection \<open>Sorting\<close>

lemma sort_reverse_set: "set (sort_reverse f xs) = set xs"
  by (simp add: sort_reverse_def)

lemma sort_reverse_length: "length (sort_reverse f xs) = length xs"
  by (simp add: sort_reverse_def)

lemma sort_reverse_sorted: "sorted_wrt (\<lambda>x y. f y \<le> f x) (sort_reverse f xs)"
proof -
  have "sorted_wrt (\<lambda>x y. f x \<le> f y) (sort_key f (rev xs))"
    using sorted_sort_key [of f "rev xs"] by (simp only: sorted_map)
  then show ?thesis
    by (simp add: sort_reverse_def sorted_wrt_rev)
qed

lemma sort_reverse_stable:
  "filter (\<lambda>y. f y = k) (sort_reverse f xs) = filter (\<lambda>y. f y = k) xs"
proof -
  have "filter (\<lambda>y. f y = k) (sort_reverse f xs)
      = rev (filter (\<lambda>y. f y = k) (sort_key f (rev xs)))"
    by (simp add: sort_reverse_def rev_filter)
  also have "\<dots> = rev (filter (\<lambda>y. f y = k) (rev xs))"
    by (simp only: sort_key_stable)
  also have "\<dots> = filter (\<lambda>y. f y = k) xs"
    by (simp add: rev_filter)
  finally show ?thesis .
qed

lemma sort_reverse_distinct_keys:
  "distinct (map g (sort_reverse f xs)) = distinct (map g xs)"
proof -
  have c: "distinct (map g ys) \<longleftrightarrow> card (g ` set ys) = length ys" for ys
    using distinct_card [of "map g ys"] card_distinct [of "map g ys"] by auto
  show ?thesis
    by (simp only: c sort_reverse_set sort_reverse_length)
qed

lemma filter_by_key:
  assumes "distinct (map fst xs)"
  shows "map fst (filter P xs) = filter (\<lambda>n. \<exists>s. (n, s) \<in> set xs \<and> P (n, s)) (map fst xs)"
  using assms
proof (induction xs)
  case Nil
  then show ?case by simp
next
  case (Cons x xs)
  obtain n s where x: "x = (n, s)"
    by (cases x)
  have fresh: "\<And>t. (n, t) \<notin> set xs"
    using Cons.prems x by (auto simp: image_iff)
  have tail: "filter (\<lambda>m. \<exists>t. (m, t) \<in> set (x # xs) \<and> P (m, t)) (map fst xs)
      = filter (\<lambda>m. \<exists>t. (m, t) \<in> set xs \<and> P (m, t)) (map fst xs)"
  proof (rule filter_cong [OF refl])
    fix m assume "m \<in> set (map fst xs)"
    then have "m \<noteq> n"
      using Cons.prems x by auto
    then show "(\<exists>t. (m, t) \<in> set (x # xs) \<and> P (m, t)) = (\<exists>t. (m, t) \<in> set xs \<and> P (m, t))"
      using x by auto
  qed
  have head: "(\<exists>t. (n, t) \<in> set (x # xs) \<and> P (n, t)) = P (n, s)"
    using x fresh by auto
  from Cons.IH Cons.prems have ih: "map fst (filter P xs)
      = filter (\<lambda>n. \<exists>s. (n, s) \<in> set xs \<and> P (n, s)) (map fst xs)"
    by simp
  let ?Q = "\<lambda>m. \<exists>t. (m, t) \<in> set (x # xs) \<and> P (m, t)"
  have l: "map fst (filter P (x # xs))
      = (if P (n, s) then n # map fst (filter P xs) else map fst (filter P xs))"
    by (simp add: x)
  have r: "filter ?Q (map fst (x # xs))
      = (if ?Q n then n # filter ?Q (map fst xs) else filter ?Q (map fst xs))"
    by (simp only: x list.map fst_conv filter.simps)
  show ?case
    by (simp only: l r head tail ih)
qed

subsection \<open>Scores\<close>

lemma score_key: "fst (score b e) = fst e"
  by (simp add: score_def Let_def)

lemma map_fst_score: "map fst (map (score b) st) = map fst st"
  by (simp add: score_key)

lemma counts_split: "support_of n rows = failed_of n rows + passed_of n rows"
  unfolding support_of_def failed_of_def passed_of_def
  by (induction rows) auto

lemma failed_le_support: "failed_of n rows \<le> support_of n rows"
  by (simp add: counts_split)

lemma ranked_mem:
  assumes "analyze_predicates rows b = Some ranked"
  shows "(n, s) \<in> set ranked \<longleftrightarrow>
     support_of n rows \<noteq> 0 \<and> s = snd (score b (n, counts n rows))"
proof -
  have r: "ranked = sort_reverse sort_key_fn (map (score b) (collect_stats rows))"
    using assms by (simp add: analyze_predicates_def split: if_splits)
  have "(n, s) \<in> set ranked \<longleftrightarrow> (\<exists>e \<in> set (collect_stats rows). (n, s) = score b e)"
    by (auto simp: r sort_reverse_set)
  also have "\<dots> \<longleftrightarrow> (\<exists>t. (n, t) \<in> set (collect_stats rows) \<and> s = snd (score b (n, t)))"
  proof
    assume "\<exists>e \<in> set (collect_stats rows). (n, s) = score b e"
    then obtain e where e: "e \<in> set (collect_stats rows)" "(n, s) = score b e"
      by blast
    from e(2) have "fst e = n" "s = snd (score b e)"
      using score_key [of b e] by (metis fst_conv, metis snd_conv)
    then have "(n, snd e) \<in> set (collect_stats rows)" "s = snd (score b (n, snd e))"
      using e(1) by auto
    then show "\<exists>t. (n, t) \<in> set (collect_stats rows) \<and> s = snd (score b (n, t))"
      by blast
  next
    assume "\<exists>t. (n, t) \<in> set (collect_stats rows) \<and> s = snd (score b (n, t))"
    then obtain t where t: "(n, t) \<in> set (collect_stats rows)" "s = snd (score b (n, t))"
      by blast
    have "(n, s) = score b (n, t)"
      using t(2) score_key [of b "(n, t)"] by (simp add: prod_eq_iff)
    with t(1) show "\<exists>e \<in> set (collect_stats rows). (n, s) = score b e"
      by blast
  qed
  also have "\<dots> \<longleftrightarrow> support_of n rows \<noteq> 0 \<and> s = snd (score b (n, counts n rows))"
    by (auto simp: collect_stats_mem)
  finally show ?thesis .
qed

lemma ranked_keys:
  assumes "analyze_predicates rows b = Some ranked"
  shows "distinct (map fst ranked)" and "set (map fst ranked) = set (first_use rows)"
proof -
  have r: "ranked = sort_reverse sort_key_fn (map (score b) (collect_stats rows))"
    using assms by (simp add: analyze_predicates_def split: if_splits)
  show "distinct (map fst ranked)"
    by (simp only: r sort_reverse_distinct_keys map_fst_score collect_stats_distinct)
  show "set (map fst ranked) = set (first_use rows)"
    by (simp add: r sort_reverse_set image_image score_key collect_stats_keys [symmetric])
qed

lemma baseline_bounds:
  assumes "rows_wf rows"
  shows "0 \<le> baseline_failure_rate (compute_baseline rows)"
    and "baseline_failure_rate (compute_baseline rows) \<le> 1"
proof -
  have "0 \<le> sum_list (map failed rows) \<and> sum_list (map failed rows) \<le> int (length rows)"
    using assms unfolding rows_wf_def by (induction rows) auto
  then show "0 \<le> baseline_failure_rate (compute_baseline rows)"
    and "baseline_failure_rate (compute_baseline rows) \<le> 1"
    by (auto simp: compute_baseline_def Let_def divide_le_eq_1)
qed

subsection \<open>The rows the client writes\<close>

text \<open>
  Every row \<open>append_sd_row\<close> adds has \<open>failed\<close> 0 or 1, so a store that only
  \<open>send_file\<close> writes to holds such rows only.
\<close>

lemma append_sd_row_wf:
  assumes "rows_wf (case store of None \<Rightarrow> [] | Some rows \<Rightarrow> rows)"
  shows "rows_wf (case append_sd_row store name osize csize ratio latency large bug ok of
                    None \<Rightarrow> [] | Some rows \<Rightarrow> rows)"
proof (cases store)
  case None
  then show ?thesis
    by (simp add: append_sd_row_def rows_wf_def)
next
  case (Some rows)
  then show ?thesis
    using assms by (auto simp: append_sd_row_def rows_wf_def)
qed

lemma send_file_wf:
  assumes "send_file L post elapsed_ms store name content = Inr store'"
    and "rows_wf (case store of None \<Rightarrow> [] | Some rows \<Rightarrow> rows)"
  shows "rows_wf (case store' of None \<Rightarrow> [] | Some rows \<Rightarrow> rows)"
proof -
  from assms(1) obtain osize csize ratio large bug ok where
    "store' = append_sd_row store name osize csize ratio elapsed_ms large bug ok"
    by (auto simp: send_file_def send_file_finish_def Let_def split: sum.splits if_splits)
  then show ?thesis
    using append_sd_row_wf [OF assms(2)] by simp
qed

subsection \<open>The example of the specification\<close>

lemma example_baseline:
  "compute_baseline example_rows =
     \<lparr>total_runs = 4, total_failed = 2, total_passed = 2, baseline_failure_rate = 1 / 2\<rparr>"
  by (simp add: compute_baseline_def example_rows_def example_row_def Let_def)

lemma example_stats:
  "collect_stats example_rows =
     [(''P1_is_large_file'',
         \<lparr>failed_P = 2, passed_P = 1, support = 3, failure_P = 0, increase = 0\<rparr>),
      (''P2_bug_triggered'',
         \<lparr>failed_P = 2, passed_P = 0, support = 2, failure_P = 0, increase = 0\<rparr>),
      (''P3_checksum_failed'',
         \<lparr>failed_P = 2, passed_P = 0, support = 2, failure_P = 0, increase = 0\<rparr>),
      (''P7_small_file'',
         \<lparr>failed_P = 0, passed_P = 1, support = 1, failure_P = 0, increase = 0\<rparr>)]"
  by (simp add: collect_stats_def example_rows_def example_row_def record_row_def
      define_predicates_def count_row_def new_stats_def Let_def)

lemma example_ranked:
  "analyze_predicates example_rows (compute_baseline example_rows) =
     Some [(''P2_bug_triggered'',
              \<lparr>failed_P = 2, passed_P = 0, support = 2, failure_P = 1, increase = 1 / 2\<rparr>),
           (''P3_checksum_failed'',
              \<lparr>failed_P = 2, passed_P = 0, support = 2, failure_P = 1, increase = 1 / 2\<rparr>),
           (''P1_is_large_file'',
              \<lparr>failed_P = 2, passed_P = 1, support = 3, failure_P = 1,
                increase = 2 / 3 - 1 / 2\<rparr>),
           (''P7_small_file'',
              \<lparr>failed_P = 0, passed_P = 1, support = 1, failure_P = 0,
                increase = 0 - 1 / 2\<rparr>)]"
  by (simp add: analyze_predicates_def example_baseline example_stats score_def
      sort_reverse_def sort_key_fn_def less_eq_prod_def Let_def)

subsection \<open>The claims about the analyzer\<close>

text \<open>
  Claim C3. For every record set the baseline is \<open>total_failed / total_runs\<close> (0 for no
  records), with \<open>total_runs\<close> the number of records and \<open>total_failed\<close> the sum of the
  column \<open>failed\<close>; and for every predicate of the output, \<open>support\<close>, \<open>failed_P\<close> and
  \<open>passed_P\<close> are the counts of the specification, \<open>failure_P\<close> is
  \<open>failed_P / total_failed\<close> (0 unless \<open>total_failed\<close> is positive) and \<open>increase\<close> is
  \<open>failed_P / support\<close> (0 for no support) minus the baseline. On the four records of
  the specification's example the baseline is 1/2 and P1 has support 3,
  \<open>failed_P\<close> 2, \<open>failure_P\<close> 1 and \<open>increase\<close> 2/3 - 1/2.
\<close>

theorem analyzer_scores:
  assumes "b = compute_baseline rows"
  shows "total_runs b = length rows
       \<and> total_failed b = sum_list (map failed rows)
       \<and> baseline_failure_rate b =
           (if rows = [] then 0 else real_of_int (total_failed b) / real (total_runs b))
       \<and> (rows \<noteq> [] \<longrightarrow>
            (\<exists>ranked. analyze_predicates rows b = Some ranked
               \<and> (\<forall>(name, s) \<in> set ranked.
                     support s = support_of name rows
                   \<and> failed_P s = failed_of name rows
                   \<and> passed_P s = passed_of name rows
                   \<and> failure_P s =
                       (if total_failed b > 0
                        then real (failed_P s) / real_of_int (total_failed b) else 0)
                   \<and> increase s =
                       (if support s > 0 then real (failed_P s) / real (support s) else 0)
                         - baseline_failure_rate b)))
       \<and> baseline_failure_rate (compute_baseline example_rows) = 1 / 2
       \<and> analyze_predicates example_rows (compute_baseline example_rows) =
           Some [(''P2_bug_triggered'',
                    \<lparr>failed_P = 2, passed_P = 0, support = 2, failure_P = 1,
                      increase = 1 / 2\<rparr>),
                 (''P3_checksum_failed'',
                    \<lparr>failed_P = 2, passed_P = 0, support = 2, failure_P = 1,
                      increase = 1 / 2\<rparr>),
                 (''P1_is_large_file'',
                    \<lparr>failed_P = 2, passed_P = 1, support = 3, failure_P = 1,
                      increase = 2 / 3 - 1 / 2\<rparr>),
                 (''P7_small_file'',
                    \<lparr>failed_P = 0, passed_P = 1, support = 1, failure_P = 0,
                      increase = 0 - 1 / 2\<rparr>)]"
proof -
  have base: "total_runs b = length rows" "total_failed b = sum_list (map failed rows)"
    "baseline_failure_rate b =
       (if rows = [] then 0 else real_of_int (total_failed b) / real (total_runs b))"
    by (simp_all add: assms compute_baseline_def Let_def)
  have ranked: "\<exists>ranked. analyze_predicates rows b = Some ranked
      \<and> (\<forall>(name, s) \<in> set ranked.
            support s = support_of name rows
          \<and> failed_P s = failed_of name rows
          \<and> passed_P s = passed_of name rows
          \<and> failure_P s =
              (if total_failed b > 0
               then real (failed_P s) / real_of_int (total_failed b) else 0)
          \<and> increase s =
              (if support s > 0 then real (failed_P s) / real (support s) else 0)
                - baseline_failure_rate b)" if "rows \<noteq> []"
  proof -
    have "total_runs b \<noteq> 0"
      using that base(1) by simp
    then obtain ranked where r: "analyze_predicates rows b = Some ranked"
      by (simp add: analyze_predicates_def)
    have "support s = support_of name rows
          \<and> failed_P s = failed_of name rows
          \<and> passed_P s = passed_of name rows
          \<and> failure_P s =
              (if total_failed b > 0
               then real (failed_P s) / real_of_int (total_failed b) else 0)
          \<and> increase s =
              (if support s > 0 then real (failed_P s) / real (support s) else 0)
                - baseline_failure_rate b" if "(name, s) \<in> set ranked" for name s
      using that by (simp add: ranked_mem [OF r] score_def counts_def Let_def)
    with r show ?thesis
      by blast
  qed
  show ?thesis
    using base ranked example_ranked by (simp add: example_baseline)
qed


theorem analyzer_scores_witness:
  "example_rows \<noteq> []
   \<and> (\<exists>ranked. analyze_predicates example_rows (compute_baseline example_rows) = Some ranked
        \<and> (\<forall>(name, s) \<in> set ranked.
              support s = support_of name example_rows
            \<and> failed_P s = failed_of name example_rows
            \<and> increase s =
                (if support s > 0 then real (failed_P s) / real (support s) else 0) - 1 / 2))
   \<and> support_of ''P1_is_large_file'' example_rows = 3
   \<and> failed_of ''P1_is_large_file'' example_rows = 2"
proof -
  have ne: "example_rows \<noteq> []"
    by (simp add: example_rows_def)
  from analyzer_scores [OF refl, of example_rows] ne
  obtain ranked where r: "analyze_predicates example_rows (compute_baseline example_rows)
      = Some ranked"
    and all: "\<forall>(name, s) \<in> set ranked.
        support s = support_of name example_rows
      \<and> failed_P s = failed_of name example_rows
      \<and> passed_P s = passed_of name example_rows
      \<and> failure_P s =
          (if total_failed (compute_baseline example_rows) > 0
           then real (failed_P s) / real_of_int (total_failed (compute_baseline example_rows))
           else 0)
      \<and> increase s =
          (if support s > 0 then real (failed_P s) / real (support s) else 0)
            - baseline_failure_rate (compute_baseline example_rows)"
    by blast
  have p1: "(''P1_is_large_file'',
      \<lparr>failed_P = 2, passed_P = 1, support = 3, failure_P = 1, increase = 2 / 3 - 1 / 2\<rparr>)
      \<in> set ranked"
    using r unfolding example_ranked by auto
  from all p1 have "support_of ''P1_is_large_file'' example_rows = 3"
    "failed_of ''P1_is_large_file'' example_rows = 2"
    by force+
  moreover from all have "\<forall>(name, s) \<in> set ranked.
        support s = support_of name example_rows
      \<and> failed_P s = failed_of name example_rows
      \<and> increase s =
          (if support s > 0 then real (failed_P s) / real (support s) else 0) - 1 / 2"
    by (simp add: example_baseline split_beta)
  ultimately show ?thesis
    using ne r by blast
qed

text \<open>
  Claim C10. Every predicate of the output has \<open>support = failed_P + passed_P\<close> and
  \<open>support \<ge> 1\<close>, so its failure rate \<open>failed_P / support\<close> lies between 0 and 1; and
  when every record has \<open>failed\<close> 0 or 1, as the records the client writes have, the
  baseline lies between 0 and 1 and \<open>increase\<close> between -1 and 1.
\<close>

theorem ranked_entry_bounds:
  assumes "analyze_predicates rows (compute_baseline rows) = Some ranked"
    and "(name, s) \<in> set ranked"
  shows "support s = failed_P s + passed_P s
       \<and> 1 \<le> support s
       \<and> 0 \<le> real (failed_P s) / real (support s)
       \<and> real (failed_P s) / real (support s) \<le> 1
       \<and> increase s = real (failed_P s) / real (support s)
                        - baseline_failure_rate (compute_baseline rows)
       \<and> (rows_wf rows \<longrightarrow> - 1 \<le> increase s \<and> increase s \<le> 1)"
proof -
  from assms have pos: "support_of name rows \<noteq> 0"
    and s: "s = snd (score (compute_baseline rows) (name, counts name rows))"
    by (simp_all add: ranked_mem)
  have sup: "support s = support_of name rows" and fl: "failed_P s = failed_of name rows"
    and ps: "passed_P s = passed_of name rows"
    by (simp_all add: s score_def counts_def Let_def)
  have inc: "increase s = real (failed_P s) / real (support s)
      - baseline_failure_rate (compute_baseline rows)"
    using pos by (simp add: s score_def counts_def Let_def)
  have le: "failed_P s \<le> support s"
    by (simp add: sup fl failed_le_support)
  have one: "1 \<le> support s"
    using pos sup by simp
  have rate: "0 \<le> real (failed_P s) / real (support s)"
    "real (failed_P s) / real (support s) \<le> 1"
    using le one by (simp_all add: divide_le_eq_1)
  have "- 1 \<le> increase s \<and> increase s \<le> 1" if "rows_wf rows"
    using baseline_bounds [OF that] rate inc by linarith
  then show ?thesis
    using sup fl ps counts_split [of name rows] one rate inc by simp
qed

theorem ranked_entry_bounds_witness:
  "analyze_predicates example_rows (compute_baseline example_rows) =
     Some [(''P2_bug_triggered'',
              \<lparr>failed_P = 2, passed_P = 0, support = 2, failure_P = 1, increase = 1 / 2\<rparr>),
           (''P3_checksum_failed'',
              \<lparr>failed_P = 2, passed_P = 0, support = 2, failure_P = 1, increase = 1 / 2\<rparr>),
           (''P1_is_large_file'',
              \<lparr>failed_P = 2, passed_P = 1, support = 3, failure_P = 1,
                increase = 2 / 3 - 1 / 2\<rparr>),
           (''P7_small_file'',
              \<lparr>failed_P = 0, passed_P = 1, support = 1, failure_P = 0,
                increase = 0 - 1 / 2\<rparr>)]
   \<and> rows_wf example_rows
   \<and> (3 :: nat) = 2 + 1 \<and> (1 :: nat) \<le> 3
   \<and> (0 :: real) \<le> real 2 / real 3 \<and> real 2 / real 3 \<le> (1 :: real)
   \<and> - 1 \<le> (2 / 3 - 1 / 2 :: real) \<and> (2 / 3 - 1 / 2 :: real) \<le> 1"
proof -
  let ?s = "\<lparr>failed_P = 2, passed_P = 1, support = 3, failure_P = 1,
             increase = 2 / 3 - 1 / 2\<rparr>"
  have wf: "rows_wf example_rows"
    by (simp add: rows_wf_def example_rows_def example_row_def)
  have mem: "(''P1_is_large_file'', ?s) \<in> set
     [(''P2_bug_triggered'',
              \<lparr>failed_P = 2, passed_P = 0, support = 2, failure_P = 1, increase = 1 / 2\<rparr>),
           (''P3_checksum_failed'',
              \<lparr>failed_P = 2, passed_P = 0, support = 2, failure_P = 1, increase = 1 / 2\<rparr>),
           (''P1_is_large_file'',
              \<lparr>failed_P = 2, passed_P = 1, support = 3, failure_P = 1,
                increase = 2 / 3 - 1 / 2\<rparr>),
           (''P7_small_file'',
              \<lparr>failed_P = 0, passed_P = 1, support = 1, failure_P = 0,
                increase = 0 - 1 / 2\<rparr>)]"
    by simp
  from ranked_entry_bounds [OF example_ranked mem] wf example_ranked show ?thesis
    by simp
qed

text \<open>
  Claim C4. The ranked output is in descending order of \<open>increase\<close> and, among equal
  \<open>increase\<close>, of \<open>failure_P\<close>; it lists each predicate with support at least 1 once
  and no other; and predicates with the same pair of scores keep the order in which
  they first held, so the output is a function of the records alone.
\<close>

theorem ranking_order:
  assumes "analyze_predicates rows (compute_baseline rows) = Some ranked"
  shows "sorted_wrt (\<lambda>x y. increase (snd x) > increase (snd y)
                        \<or> (increase (snd x) = increase (snd y)
                            \<and> failure_P (snd x) \<ge> failure_P (snd y))) ranked
       \<and> distinct (map fst ranked)
       \<and> set (map fst ranked) = {name. 1 \<le> support_of name rows}
       \<and> (\<forall>(name, s) \<in> set ranked. 1 \<le> support s)
       \<and> (\<forall>k. map fst (filter (\<lambda>r. sort_key_fn r = k) ranked) =
                filter (\<lambda>name. \<exists>s. (name, s) \<in> set ranked \<and> sort_key_fn (name, s) = k)
                  (first_use rows))"
proof -
  let ?b = "compute_baseline rows"
  let ?xs = "map (score ?b) (collect_stats rows)"
  have r: "ranked = sort_reverse sort_key_fn ?xs"
    using assms by (simp add: analyze_predicates_def split: if_splits)
  have "sorted_wrt (\<lambda>x y. sort_key_fn y \<le> sort_key_fn x) ranked"
    unfolding r by (rule sort_reverse_sorted)
  then have order: "sorted_wrt (\<lambda>x y. increase (snd x) > increase (snd y)
      \<or> (increase (snd x) = increase (snd y) \<and> failure_P (snd x) \<ge> failure_P (snd y)))
      ranked"
    by (rule sorted_wrt_mono_rel [rotated])
      (auto simp: sort_key_fn_def less_eq_prod_def)
  have names: "set (map fst ranked) = {name. 1 \<le> support_of name rows}"
  proof -
    have "name \<in> fst ` set ranked \<longleftrightarrow> 1 \<le> support_of name rows" for name
    proof -
      have "name \<in> fst ` set ranked \<longleftrightarrow> (\<exists>s. (name, s) \<in> set ranked)"
        by force
      also have "\<dots> \<longleftrightarrow> support_of name rows \<noteq> 0"
        by (simp add: ranked_mem [OF assms])
      finally show ?thesis
        by auto
    qed
    then show ?thesis
      by auto
  qed
  have sup: "\<forall>(name, s) \<in> set ranked. 1 \<le> support s"
  proof -
    have "1 \<le> support s" if "(name, s) \<in> set ranked" for name s
      using that by (auto simp: ranked_mem [OF assms] score_def counts_def Let_def)
    then show ?thesis
      by blast
  qed
  have dx: "distinct (map fst ?xs)"
    by (simp only: map_fst_score collect_stats_distinct)
  have stable: "map fst (filter (\<lambda>r. sort_key_fn r = k) ranked) =
      filter (\<lambda>name. \<exists>s. (name, s) \<in> set ranked \<and> sort_key_fn (name, s) = k)
        (first_use rows)" for k
  proof -
    have "filter (\<lambda>r. sort_key_fn r = k) ranked = filter (\<lambda>r. sort_key_fn r = k) ?xs"
      unfolding r by (rule sort_reverse_stable)
    then have "map fst (filter (\<lambda>r. sort_key_fn r = k) ranked)
        = map fst (filter (\<lambda>r. sort_key_fn r = k) ?xs)"
      by simp
    also have "\<dots> = filter (\<lambda>name. \<exists>s. (name, s) \<in> set ?xs \<and> sort_key_fn (name, s) = k)
        (map fst ?xs)"
      by (rule filter_by_key [OF dx])
    also have "map fst ?xs = first_use rows"
      by (simp only: map_fst_score collect_stats_keys)
    also have "set ?xs = set ranked"
      by (simp only: r sort_reverse_set)
    finally show ?thesis .
  qed
  show ?thesis
    using order ranked_keys(1) [OF assms] names sup stable by blast
qed

theorem ranking_order_witness:
  "analyze_predicates example_rows (compute_baseline example_rows) =
     Some [(''P2_bug_triggered'',
              \<lparr>failed_P = 2, passed_P = 0, support = 2, failure_P = 1, increase = 1 / 2\<rparr>),
           (''P3_checksum_failed'',
              \<lparr>failed_P = 2, passed_P = 0, support = 2, failure_P = 1, increase = 1 / 2\<rparr>),
           (''P1_is_large_file'',
              \<lparr>failed_P = 2, passed_P = 1, support = 3, failure_P = 1,
                increase = 2 / 3 - 1 / 2\<rparr>),
           (''P7_small_file'',
              \<lparr>failed_P = 0, passed_P = 1, support = 1, failure_P = 0,
                increase = 0 - 1 / 2\<rparr>)]
   \<and> first_use example_rows =
       [''P1_is_large_file'', ''P2_bug_triggered'', ''P3_checksum_failed'', ''P7_small_file'']
   \<and> {name. 1 \<le> support_of name example_rows} =
       {''P2_bug_triggered'', ''P3_checksum_failed'', ''P1_is_large_file'', ''P7_small_file''}"
proof -
  have fu: "first_use example_rows =
      [''P1_is_large_file'', ''P2_bug_triggered'', ''P3_checksum_failed'', ''P7_small_file'']"
    by (simp add: collect_stats_keys [symmetric] example_stats)
  from ranking_order [OF example_ranked, THEN conjunct2, THEN conjunct2, THEN conjunct1]
  have "{name. 1 \<le> support_of name example_rows} =
      {''P2_bug_triggered'', ''P3_checksum_failed'', ''P1_is_large_file'', ''P7_small_file''}"
    by simp
  with fu example_ranked show ?thesis
    by blast
qed

section \<open>Error results and the record store\<close>






text \<open>
  Claim C5, as the code has it. When the store exists and holds no data rows, the
  baseline is all zero, \<open>analyze_predicates\<close> returns at once without a ranking, and
  \<open>main\<close> reports the zero baseline and the line for no predicates.
\<close>

theorem empty_store_report:
  "compute_baseline [] =
     \<lparr>total_runs = 0, total_failed = 0, total_passed = 0, baseline_failure_rate = 0\<rparr>
   \<and> analyze_predicates [] (compute_baseline []) = None
   \<and> main (Some []) =
       Inr (\<lparr>total_runs = 0, total_failed = 0, total_passed = 0, baseline_failure_rate = 0\<rparr>,
            NoPredicates)"
  by (simp add: compute_baseline_def analyze_predicates_def main_def load_sd_data_def)

text \<open>
  Claim C5 as stated fails when there are no records because the store does not exist
  yet: \<open>load_sd_data\<close> raises, and \<open>main\<close> reports nothing.
\<close>

theorem missing_store_raises:
  "main None = Inl FileNotFoundError"
  by (simp add: main_def load_sd_data_def)

end
